theory Spec2Isabelle
  imports Main "HOL-Library.Word"
begin

section \<open>Values carried by Socket.IO events\<close>

text \<open>
  A Socket.IO handler receives the first argument of an event as a decoded
  JavaScript value. The model keeps the shapes of data a packet can carry:
  \<open>undefined\<close> (the event was sent without an argument), \<open>null\<close>,
  booleans, numbers (as the decoder produced them; the model keeps the
  integers only, since all the server asks of a number is whether it is zero),
  strings, binary attachments (a \<open>Buffer\<close>, as its bytes), arrays and objects
  (own properties in insertion order, keys unique).
\<close>

datatype js =
    JUndefined
  | JNull
  | JBool bool
  | JNum int
  | JStr string
  | JBin "8 word list"
  | JArr "js list"
  | JObj "(string \<times> js) list"

datatype js_error = TypeError

text \<open>JavaScript's ToBoolean, as \<open>&&\<close> and \<open>? :\<close> apply it.\<close>

fun truthy :: "js \<Rightarrow> bool" where
  "truthy JUndefined = False"
| "truthy JNull = False"
| "truthy (JBool b) = b"
| "truthy (JNum n) = (n \<noteq> 0)"
| "truthy (JStr s) = (s \<noteq> [])"
| "truthy (JBin bs) = True"
| "truthy (JArr xs) = True"
| "truthy (JObj kvs) = True"

text \<open>
  The property read \<open>payload.type\<close>. On \<open>undefined\<close> and \<open>null\<close> it throws
  a TypeError; on an object it is the own property \<open>type\<close> or \<open>undefined\<close>; on
  every other value it is \<open>undefined\<close> (no prototype of a boolean, number,
  string, Buffer or array has a property of that name).
\<close>

fun get_type :: "js \<Rightarrow> js_error + js" where
  "get_type JUndefined = Inl TypeError"
| "get_type JNull = Inl TypeError"
| "get_type (JObj kvs) = Inr (case map_of kvs ''type'' of Some v \<Rightarrow> v | None \<Rightarrow> JUndefined)"
| "get_type v = Inr JUndefined"

section \<open>What the server process does\<close>

type_synonym sid = string

datatype http_method = GET | HEAD | POST | PUT | DELETE | PATCH | OPTIONS

text \<open>
  The body of an HTTP request, as \<open>express.json()\<close> sorts it: none, a body
  of type \<open>application/json\<close> that it parses to a value, a body of that type
  that it refuses (with the status of the refusal: 400 when the text does not
  parse, 413 when it is over the size limit, 415 for a charset or an encoding
  it does not support), and a body of another type, which it leaves alone.
\<close>

datatype req_body = NoBody | JsonBody js | RefusedJson nat | OtherBody

text \<open>An HTTP request: its method, the path of its URL and its body.\<close>

record http_request =
  req_method :: http_method
  req_path :: string
  req_body :: req_body

text \<open>An answer: the status and the JSON body, if one is sent.\<close>

record http_response =
  status :: nat
  body :: "js option"

text \<open>
  The effects of the process: the three \<open>console.log\<close> calls of the socket
  handlers, a Socket.IO packet for one socket (the event name and the argument
  as they are passed to \<open>emit\<close>), and the answer to an HTTP request.
  \<open>Refused\<close> stands for a request that a middleware ends with an error:
  Express's error handler answers it with the given status (its error page is
  not modelled). \<open>Unrouted\<close> stands for a request that no middleware ends and
  no route of the source answers: Express answers it with its own 404.
\<close>

datatype effect =
    LogConnected sid
  | LogMessage js
  | LogDisconnected sid
  | Emit sid string js
  | Respond http_response
  | Refused http_request nat
  | Unrouted http_request

text \<open>
  Socket.IO's reasons for the \<open>disconnect\<close> event. A failing transport
  (\<open>TransportError\<close>, \<open>TransportClose\<close>, \<open>PingTimeout\<close>) reaches the server as
  this event, like a disconnect the client asked for.
\<close>

datatype disconnect_reason =
    ClientNamespaceDisconnect
  | ServerNamespaceDisconnect
  | ServerShuttingDown
  | TransportClose
  | TransportError
  | PingTimeout
  | ParseError
  | ForcedClose

text \<open>
  What happens to the process: a client connects, a connected client sends an
  event with a name and an argument, a connection ends, an HTTP request arrives.
\<close>

datatype event =
    Connect sid
  | Packet sid string js
  | Disconnect sid disconnect_reason
  | Http http_request

text \<open>
  Neither server of the repository declares a variable of its own that
  outlives a handler call. The only state of the process is Socket.IO's table
  of connected sockets, a JavaScript \<open>Map\<close> keyed by socket id: the keys in
  insertion order. The table, how a socket enters and leaves it, and whom
  \<open>broadcast.emit\<close> sends to are library behaviour (Socket.IO), not code of
  the repository.
\<close>

type_synonym sockets = "sid list"

definition add_socket :: "sid \<Rightarrow> sockets \<Rightarrow> sockets" where
  "add_socket i cs = (if i \<in> set cs then cs else cs @ [i])"

definition remove_socket :: "sid \<Rightarrow> sockets \<Rightarrow> sockets" where
  "remove_socket i cs = removeAll i cs"

text \<open>
  \<open>socket.broadcast.emit(ev, arg)\<close>: one packet to every socket of the
  table but the sender's.
\<close>

definition broadcast_emit :: "sockets \<Rightarrow> sid \<Rightarrow> string \<Rightarrow> js \<Rightarrow> effect list" where
  "broadcast_emit cs sender ev arg = map (\<lambda>r. Emit r ev arg) (filter (\<lambda>r. r \<noteq> sender) cs)"

subsection \<open>The handlers\<close>

text \<open>
  \<open>io.on("connection", (socket) => { console.log("New client connected:", socket.id); ... })\<close>
\<close>

definition on_connection :: "sid \<Rightarrow> effect list" where
  "on_connection i = [LogConnected i]"

text \<open>
  \<open>socket.on("disconnect", () => console.log("Client disconnected:", socket.id))\<close>:
  the handler takes no argument, so the reason is not looked at.
\<close>

definition on_disconnect :: "sid \<Rightarrow> disconnect_reason \<Rightarrow> effect list" where
  "on_disconnect i reason = [LogDisconnected i]"

text \<open>
  The second argument of the \<open>console.log\<close> in the message handler:
  \<open>payload && payload.type ? payload.type : "unknown"\<close>. The condition is
  \<open>payload && payload.type\<close>, which reads \<open>payload.type\<close> only when
  \<open>payload\<close> is truthy.
\<close>

definition log_label :: "js \<Rightarrow> js_error + js" where
  "log_label payload =
     (if truthy payload then
        (case get_type payload of
           Inl e \<Rightarrow> Inl e
         | Inr t \<Rightarrow> if truthy t then get_type payload else Inr (JStr ''unknown''))
      else Inr (JStr ''unknown''))"

text \<open>
  \<open>socket.on("message", (payload) => { console.log(..., label); socket.broadcast.emit("message", payload); })\<close>
  An exception thrown in a handler would end the process, so the handler returns
  either the error or its effects.
\<close>

definition on_message :: "sockets \<Rightarrow> sid \<Rightarrow> js \<Rightarrow> js_error + effect list" where
  "on_message cs sender payload =
     (case log_label payload of
        Inl e \<Rightarrow> Inl e
      | Inr label \<Rightarrow> Inr (LogMessage label # broadcast_emit cs sender ''message'' payload))"

text \<open>\<open>app.get("/health", (_req, res) => res.json({ ok: true }))\<close>\<close>

definition health :: "http_request \<Rightarrow> http_response" where
  "health req = \<lparr>status = 200, body = Some (JObj [(''ok'', JBool True)])\<rparr>"

text \<open>
  Library behaviour (the \<open>cors\<close> package with its default options), not code
  of the repository: \<open>cors()\<close> answers every OPTIONS request itself, with
  status 204 and no body, and passes every other request on.
\<close>

definition cors :: "http_request \<Rightarrow> effect option" where
  "cors req =
     (if req_method req = OPTIONS then Some (Respond \<lparr>status = 204, body = None\<rparr>) else None)"

text \<open>
  Library behaviour (\<open>express.json()\<close> with its default options), not code of
  the repository: a request whose JSON body the parser refuses is ended with
  the error of the refusal, whatever its method and path; every other request
  is passed on.
\<close>

definition express_json :: "http_request \<Rightarrow> effect option" where
  "express_json req =
     (case req_body req of RefusedJson code \<Rightarrow> Some (Refused req code) | _ \<Rightarrow> None)"

text \<open>
  \<open>app.use(m)\<close>: the middleware run in the order of their registration,
  before any route; the first that ends the request answers it.
\<close>

fun app_use :: "(http_request \<Rightarrow> effect option) list \<Rightarrow> http_request \<Rightarrow> effect option" where
  "app_use [] req = None"
| "app_use (m # ms) req = (case m req of Some reply \<Rightarrow> Some reply | None \<Rightarrow> app_use ms req)"

text \<open>
  Library behaviour (Express and Node), not code of the repository: the answer
  to a HEAD request is sent without its body.
\<close>

definition send :: "http_request \<Rightarrow> http_response \<Rightarrow> http_response" where
  "send req res = (if req_method req = HEAD then res\<lparr>body := None\<rparr> else res)"

subsection \<open>The two servers of the repository\<close>

text \<open>
  A server is the handlers it registers: for inbound socket events by name
  (\<open>socket.on\<close>), the middleware of its HTTP application (\<open>app.use\<close>) and
  the routes (\<open>app.get\<close>). Connection and disconnection are handled alike by
  both.
\<close>

record server =
  socket_handlers :: "string \<Rightarrow> (sockets \<Rightarrow> sid \<Rightarrow> js \<Rightarrow> js_error + effect list) option"
  middleware :: "(http_request \<Rightarrow> effect option) list"
  http_routes :: "http_request \<Rightarrow> (http_request \<Rightarrow> http_response) option"

text \<open>
  Library behaviour (Express's default route matching), not code of the
  repository: letter case is ignored and one trailing slash is allowed.
\<close>

definition lower_char :: "char \<Rightarrow> char" where
  "lower_char c =
     (if 65 \<le> (of_char c :: nat) \<and> (of_char c :: nat) \<le> 90 then char_of (of_char c + (32 :: nat)) else c)"

definition path_matches :: "string \<Rightarrow> string \<Rightarrow> bool" where
  "path_matches pattern path =
     (map lower_char path = map lower_char pattern \<or>
      map lower_char path = map lower_char pattern @ ''/'')"

text \<open>\<open>app.get(pattern, handler)\<close>: GET requests, and HEAD requests, which Express
  answers through the GET route.\<close>

definition app_get ::
  "string \<Rightarrow> (http_request \<Rightarrow> http_response) \<Rightarrow> http_request \<Rightarrow> (http_request \<Rightarrow> http_response) option"
where
  "app_get pattern handler req =
     (if (req_method req = GET \<or> req_method req = HEAD) \<and> path_matches pattern (req_path req)
      then Some handler else None)"

text \<open>
  The backend's entry point: \<open>app.use(cors()); app.use(express.json());\<close>, the
  connection and the disconnect handler, no handler for any inbound event, and
  no route.
\<close>

definition backend_server :: server where
  "backend_server =
     \<lparr>socket_handlers = (\<lambda>ev. None),
      middleware = [cors, express_json],
      http_routes = (\<lambda>req. None)\<rparr>"

text \<open>
  The server that the scaffolding script writes: the same, with a handler for
  the event \<open>message\<close> and the route \<open>/health\<close>.
\<close>

definition scaffold_server :: server where
  "scaffold_server =
     \<lparr>socket_handlers = (\<lambda>ev. if ev = ''message'' then Some on_message else None),
      middleware = [cors, express_json],
      http_routes = app_get ''/health'' health\<rparr>"

subsection \<open>One event, and a run of events\<close>

text \<open>
  Library behaviour (Socket.IO and Express), not code of the repository, is
  what calls the handlers. Socket.IO adds the socket to its table before the
  connection handler runs and removes it before the disconnect handler runs.
  The handlers of a socket are registered in the connection handler, so an
  inbound event or a disconnection reaches a handler only through a socket of
  the table; Socket.IO ignores the closing of a socket that is not connected.
  Express runs the middleware first and then the route that matches.
\<close>

fun step :: "server \<Rightarrow> event \<Rightarrow> sockets \<Rightarrow> js_error + (sockets \<times> effect list)" where
  "step srv (Connect i) cs = Inr (add_socket i cs, on_connection i)"
| "step srv (Disconnect i reason) cs =
     (if i \<in> set cs then Inr (remove_socket i cs, on_disconnect i reason) else Inr (cs, []))"
| "step srv (Packet i ev arg) cs =
     (if i \<in> set cs then
        (case socket_handlers srv ev of
           None \<Rightarrow> Inr (cs, [])
         | Some handler \<Rightarrow>
             (case handler cs i arg of Inl e \<Rightarrow> Inl e | Inr outs \<Rightarrow> Inr (cs, outs)))
      else Inr (cs, []))"
| "step srv (Http req) cs =
     (case app_use (middleware srv) req of
        Some reply \<Rightarrow> Inr (cs, [reply])
      | None \<Rightarrow>
          (case http_routes srv req of
             None \<Rightarrow> Inr (cs, [Unrouted req])
           | Some handler \<Rightarrow> Inr (cs, [Respond (send req (handler req))])))"

fun run :: "server \<Rightarrow> sockets \<Rightarrow> event list \<Rightarrow> js_error + (sockets \<times> effect list)" where
  "run srv cs [] = Inr (cs, [])"
| "run srv cs (e # es) =
     (case step srv e cs of
        Inl err \<Rightarrow> Inl err
      | Inr (cs', outs) \<Rightarrow>
          (case run srv cs' es of
             Inl err \<Rightarrow> Inl err
           | Inr (cs'', outs') \<Rightarrow> Inr (cs'', outs @ outs')))"

text \<open>The sockets a list of effects sends a packet to, and what it sends.\<close>

fun recipients :: "effect list \<Rightarrow> sid list" where
  "recipients [] = []"
| "recipients (Emit r ev arg # outs) = r # recipients outs"
| "recipients (out # outs) = recipients outs"

fun deliveries :: "sid \<Rightarrow> effect list \<Rightarrow> (string \<times> js) list" where
  "deliveries r [] = []"
| "deliveries r (Emit r' ev arg # outs) =
     (if r' = r then (ev, arg) # deliveries r outs else deliveries r outs)"
| "deliveries r (out # outs) = deliveries r outs"

text \<open>Every packet a list of effects sends, and every label the message handler logs.\<close>

fun packets :: "effect list \<Rightarrow> (string \<times> js) list" where
  "packets [] = []"
| "packets (Emit r ev arg # outs) = (ev, arg) # packets outs"
| "packets (out # outs) = packets outs"


subsection \<open>Frames on the wire\<close>





section \<open>The session registry of the specification\<close>

text \<open>
  Modelled from the spec: the Session Registry and the Room Directory. Neither
  server of the repository has them; the sources only name them (the API notes
  list an anonymous-session and a room endpoint, the scaffolding script makes
  empty folders for them). A session has a creation time, a time of last
  activity, a time to live and the rooms it is in; a room has a creation time, a
  time to live, its members and an optional bound on their number.
\<close>

type_synonym session_id = string
type_synonym room_id = string

record session =
  created_at :: nat
  last_activity :: nat
  session_ttl :: nat
  room_ids :: "room_id set"

record room =
  room_created_at :: nat
  room_ttl :: nat
  members :: "session_id set"
  max_members :: "nat option"

record registry =
  sessions :: "session_id \<rightharpoonup> session"
  rooms :: "room_id \<rightharpoonup> room"

datatype registry_error = NotFound

text \<open>
  Modelled from the spec: \<open>lookup(session_id) -> Session | NotFound\<close>.
\<close>

definition lookup :: "registry \<Rightarrow> session_id \<Rightarrow> registry_error + session" where
  "lookup reg s = (case sessions reg s of None \<Rightarrow> Inl NotFound | Some x \<Rightarrow> Inr x)"

text \<open>
  Modelled from the spec: \<open>destroy(session_id)\<close> removes the session and all
  its room memberships, and has no error path.
\<close>

definition destroy :: "session_id \<Rightarrow> registry \<Rightarrow> registry" where
  "destroy s reg =
     \<lparr>sessions = (sessions reg)(s := None),
      rooms = (\<lambda>r. map_option (\<lambda>rm. rm\<lparr>members := members rm - {s}\<rparr>) (rooms reg r))\<rparr>"

section \<open>Shared facts\<close>

lemma log_label_total: "\<exists>label. log_label payload = Inr label"
  by (cases payload) (simp_all add: log_label_def)

lemma on_message_total:
  "\<exists>label. on_message cs a payload = Inr (LogMessage label # broadcast_emit cs a ''message'' payload)"
  using log_label_total [of payload] by (auto simp: on_message_def)

lemma recipients_broadcast: "recipients (broadcast_emit cs a ev arg) = filter (\<lambda>r. r \<noteq> a) cs"
  by (induction cs) (simp_all add: broadcast_emit_def)

lemma deliveries_broadcast:
  "deliveries r (broadcast_emit cs a ev arg) = replicate (length (filter (\<lambda>x. x = r \<and> x \<noteq> a) cs)) (ev, arg)"
  by (induction cs) (auto simp: broadcast_emit_def)

lemma http_step_quiet:
  assumes "srv = backend_server \<or> srv = scaffold_server"
  shows "\<exists>e. step srv (Http req) cs = Inr (cs, [e]) \<and>
           recipients [e] = [] \<and> deliveries i [e] = [] \<and> packets [e] = []"
  using assms
  by (cases "req_body req")
    (auto simp: backend_server_def scaffold_server_def cors_def express_json_def app_get_def)

lemma step_state:
  "step srv e cs = Inr (cs', outs) \<Longrightarrow>
     cs' = (case e of Connect i \<Rightarrow> add_socket i cs | Disconnect i reason \<Rightarrow> remove_socket i cs | _ \<Rightarrow> cs)"
  by (cases e) (auto simp: remove_socket_def split: if_splits option.splits sum.splits)

lemma step_distinct: "distinct cs \<Longrightarrow> step srv e cs = Inr (cs', outs) \<Longrightarrow> distinct cs'"
  by (drule step_state) (auto simp: add_socket_def remove_socket_def distinct_removeAll split: event.splits)

lemma run_distinct: "distinct cs \<Longrightarrow> run srv cs es = Inr (cs', outs) \<Longrightarrow> distinct cs'"
proof (induction es arbitrary: cs outs)
  case Nil
  then show ?case by simp
next
  case (Cons e es)
  from Cons.prems(2) obtain c1 o1 o2 where
    s: "step srv e cs = Inr (c1, o1)" and r: "run srv c1 es = Inr (cs', o2)"
    by (auto split: sum.splits prod.splits)
  from step_distinct [OF Cons.prems(1) s] have "distinct c1" .
  from Cons.IH [OF this r] show ?case .
qed

lemma scaffold_packet:
  "i \<in> set cs \<Longrightarrow>
     \<exists>label. step scaffold_server (Packet i ''message'' arg) cs =
       Inr (cs, LogMessage label # broadcast_emit cs i ''message'' arg)"
  using on_message_total [of cs i arg] by (auto simp: scaffold_server_def)


lemma backend_step_total: "\<exists>cs' outs. step backend_server e cs = Inr (cs', outs)"
proof (cases e)
  case (Http req)
  with http_step_quiet [of backend_server req cs] show ?thesis by blast
qed (auto simp: backend_server_def)


lemma backend_run_total: "\<exists>cs' outs. run backend_server cs es = Inr (cs', outs)"
proof (induction es arbitrary: cs)
  case Nil
  show ?case by simp
next
  case (Cons e es)
  obtain c1 o1 where s: "step backend_server e cs = Inr (c1, o1)"
    using backend_step_total by blast
  obtain c2 o2 where "run backend_server c1 es = Inr (c2, o2)"
    using Cons.IH by blast
  with s show ?case by simp
qed

lemma recipients_append: "recipients (xs @ ys) = recipients xs @ recipients ys"
  by (induction xs rule: recipients.induct) simp_all

lemma deliveries_append: "deliveries r (xs @ ys) = deliveries r xs @ deliveries r ys"
  by (induction r xs rule: deliveries.induct) simp_all

lemma backend_step_recipients: "step backend_server e cs = Inr (cs', outs) \<Longrightarrow> recipients outs = []"
proof (cases e)
  case (Http req)
  assume "step backend_server e cs = Inr (cs', outs)"
  with Http http_step_quiet [of backend_server req cs] show ?thesis by force
qed (auto simp: backend_server_def on_connection_def on_disconnect_def split: if_splits)

lemma backend_run_recipients: "run backend_server cs es = Inr (cs', outs) \<Longrightarrow> recipients outs = []"
proof (induction es arbitrary: cs outs)
  case Nil
  then show ?case by simp
next
  case (Cons e es)
  from Cons.prems obtain c1 o1 o2 where
    s: "step backend_server e cs = Inr (c1, o1)" and r: "run backend_server c1 es = Inr (cs', o2)"
    and o: "outs = o1 @ o2"
    by (auto split: sum.splits prod.splits)
  from backend_step_recipients [OF s] Cons.IH [OF r] o show ?case
    by (simp add: recipients_append)
qed

section \<open>The backend's entry point\<close>

text \<open>
  C4. The backend's entry point registers no handler for an inbound event.
  Whatever event a client sends, under whatever name and with whatever argument,
  the server's state and effects are untouched: nothing is forwarded. A
  connection logs the socket's id, the disconnection of a connected socket logs
  it again, and over any run of events whatsoever the process keeps running and
  sends no packet to any socket.
\<close>

theorem C4_backend_forwards_nothing:
  "step backend_server (Packet i ev arg) cs = Inr (cs, []) \<and>
   step backend_server (Connect i) cs = Inr (add_socket i cs, [LogConnected i]) \<and>
   step backend_server (Disconnect i reason) cs =
     Inr (remove_socket i cs, if i \<in> set cs then [LogDisconnected i] else []) \<and>
   (\<exists>cs' outs. run backend_server cs es = Inr (cs', outs) \<and> recipients outs = [])"
proof -
  obtain cs' outs where r: "run backend_server cs es = Inr (cs', outs)"
    using backend_run_total by blast
  from backend_run_recipients [OF r] r show ?thesis
    by (simp add: backend_server_def on_connection_def on_disconnect_def remove_socket_def)
qed

section \<open>The scaffolded server: forwarding\<close>







lemma filter_eq_distinct:
  "distinct cs \<Longrightarrow> b \<in> set cs \<Longrightarrow> b \<noteq> a \<Longrightarrow> filter (\<lambda>x. x = b \<and> x \<noteq> a) cs = [b]"
proof (induction cs)
  case Nil
  then show ?case by simp
next
  case (Cons c cs)
  show ?case
  proof (cases "c = b")
    case True
    with Cons.prems have "b \<notin> set cs" by simp
    then have "filter (\<lambda>x. x = b \<and> x \<noteq> a) cs = []"
      by (induction cs) auto
    with True Cons.prems show ?thesis by simp
  next
    case False
    with Cons show ?thesis by auto
  qed
qed



text \<open>
  C2. When a connected client sends a \<open>message\<close> event, the scaffolded
  server sends that value to every socket of the connection table except the
  sender's, one packet each, whatever the value holds: a room or a target named
  in it changes nothing.
\<close>

theorem C2_message_reaches_all_others:
  assumes "a \<in> set cs"
  shows "\<exists>label. step scaffold_server (Packet a ''message'' frame) cs =
           Inr (cs, LogMessage label # map (\<lambda>r. Emit r ''message'' frame) (filter (\<lambda>r. r \<noteq> a) cs))"
  using scaffold_packet [OF assms, of frame] by (simp add: broadcast_emit_def)

theorem C2_message_reaches_all_others_witness:
  "''A'' \<in> set [''A'', ''B'', ''C''] \<and>
   step scaffold_server
     (Packet ''A'' ''message''
        (JObj [(''type'', JStr ''send''), (''target'', JStr ''room-7''), (''payload'', JStr ''3q2+7w=='')]))
     [''A'', ''B'', ''C''] =
   Inr ([''A'', ''B'', ''C''],
     [LogMessage (JStr ''send''),
      Emit ''B'' ''message''
        (JObj [(''type'', JStr ''send''), (''target'', JStr ''room-7''), (''payload'', JStr ''3q2+7w=='')]),
      Emit ''C'' ''message''
        (JObj [(''type'', JStr ''send''), (''target'', JStr ''room-7''), (''payload'', JStr ''3q2+7w=='')])])"
  using C2_message_reaches_all_others [of "''A''" "[''A'', ''B'', ''C'']"
      "JObj [(''type'', JStr ''send''), (''target'', JStr ''room-7''), (''payload'', JStr ''3q2+7w=='')]"]
  by (simp add: scaffold_server_def on_message_def log_label_def broadcast_emit_def)

text \<open>
  C3. In any state the scaffolded server can reach, when A sends an envelope
  while another client B is connected, B is sent the envelope exactly once and A
  is not sent it at all. The envelope is any value, so also one that names a
  room as its target.
\<close>

theorem C3_other_member_receives_once:
  assumes "run scaffold_server [] es = Inr (cs, outs0)"
    and "A \<in> set cs" and "B \<in> set cs" and "B \<noteq> A"
  shows "\<exists>outs. step scaffold_server (Packet A ''message'' envelope) cs = Inr (cs, outs) \<and>
           deliveries B outs = [(''message'', envelope)] \<and> deliveries A outs = []"
proof -
  have d: "distinct cs"
    using run_distinct [OF _ assms(1)] by simp
  obtain label where
    s: "step scaffold_server (Packet A ''message'' envelope) cs =
          Inr (cs, LogMessage label # broadcast_emit cs A ''message'' envelope)"
    using scaffold_packet [OF assms(2)] by blast
  have "deliveries B (broadcast_emit cs A ''message'' envelope) = [(''message'', envelope)]"
    by (simp add: deliveries_broadcast filter_eq_distinct [OF d assms(3) assms(4)])
  moreover have "deliveries A (broadcast_emit cs A ''message'' envelope) = []"
    by (simp add: deliveries_broadcast)
  ultimately show ?thesis using s by simp
qed

theorem C3_other_member_receives_once_witness:
  "run scaffold_server [] [Connect ''A'', Connect ''B''] =
     Inr ([''A'', ''B''], [LogConnected ''A'', LogConnected ''B'']) \<and>
   (\<exists>outs. step scaffold_server
        (Packet ''A'' ''message'' (JObj [(''target'', JStr ''R''), (''payload'', JStr ''hello'')]))
        [''A'', ''B''] = Inr ([''A'', ''B''], outs) \<and>
      deliveries ''B'' outs =
        [(''message'', JObj [(''target'', JStr ''R''), (''payload'', JStr ''hello'')])] \<and>
      deliveries ''A'' outs = [])"
proof -
  have r: "run scaffold_server [] [Connect ''A'', Connect ''B''] =
     Inr ([''A'', ''B''], [LogConnected ''A'', LogConnected ''B''])"
    by (simp add: add_socket_def on_connection_def)
  from C3_other_member_receives_once [OF r, of "''A''" "''B''"] r show ?thesis
    by simp
qed

text \<open>
  C10. Which sockets the scaffolded server sends to does not depend on what was
  sent: two values sent by the same socket under the same event name in the
  same state reach the same sockets, in the same order.
\<close>

theorem C10_recipients_independent_of_payload:
  "\<exists>outs1 outs2.
     step scaffold_server (Packet a ev payload1) cs = Inr (cs, outs1) \<and>
     step scaffold_server (Packet a ev payload2) cs = Inr (cs, outs2) \<and>
     recipients outs1 = recipients outs2"
proof (cases "a \<in> set cs \<and> ev = ''message''")
  case True
  obtain l1 where 1: "step scaffold_server (Packet a ''message'' payload1) cs =
      Inr (cs, LogMessage l1 # broadcast_emit cs a ''message'' payload1)"
    using scaffold_packet True by blast
  obtain l2 where 2: "step scaffold_server (Packet a ''message'' payload2) cs =
      Inr (cs, LogMessage l2 # broadcast_emit cs a ''message'' payload2)"
    using scaffold_packet True by blast
  from 1 2 True show ?thesis
    by (simp add: recipients_broadcast)
next
  case False
  then show ?thesis by (auto simp: scaffold_server_def)
qed

section \<open>The scaffolded server: health check\<close>





section \<open>A socket that is not in the table\<close>

lemma deliveries_broadcast_absent: "i \<notin> set cs \<Longrightarrow> deliveries i (broadcast_emit cs a ev arg) = []"
  by (induction cs) (auto simp: broadcast_emit_def)

lemma step_absent:
  assumes "srv = backend_server \<or> srv = scaffold_server"
    and "i \<notin> set cs" and "e \<noteq> Connect i" and "step srv e cs = Inr (cs', outs)"
  shows "i \<notin> set cs' \<and> deliveries i outs = []"
proof (cases e)
  case (Connect j)
  with assms show ?thesis by (auto simp: add_socket_def on_connection_def split: if_splits)
next
  case (Packet j ev arg)
  show ?thesis
  proof (cases "srv = scaffold_server \<and> j \<in> set cs \<and> ev = ''message''")
    case True
    obtain label where "step scaffold_server (Packet j ''message'' arg) cs =
        Inr (cs, LogMessage label # broadcast_emit cs j ''message'' arg)"
      using scaffold_packet True by blast
    with True Packet assms show ?thesis
      by (auto simp: deliveries_broadcast_absent)
  next
    case False
    with Packet assms show ?thesis
      by (auto simp: backend_server_def scaffold_server_def split: if_splits)
  qed
next
  case (Disconnect j reason)
  with assms show ?thesis by (auto simp: remove_socket_def on_disconnect_def split: if_splits)
next
  case (Http req)
  from http_step_quiet [OF assms(1), of req cs i] Http assms(2,4) show ?thesis
    by force
qed

lemma run_absent:
  assumes "srv = backend_server \<or> srv = scaffold_server"
  shows "i \<notin> set cs \<Longrightarrow> Connect i \<notin> set es \<Longrightarrow> run srv cs es = Inr (cs', outs) \<Longrightarrow>
           i \<notin> set cs' \<and> deliveries i outs = []"
proof (induction es arbitrary: cs outs)
  case Nil
  then show ?case by simp
next
  case (Cons e es)
  from Cons.prems(3) obtain c1 o1 o2 where
    s: "step srv e cs = Inr (c1, o1)" and r: "run srv c1 es = Inr (cs', o2)"
    and o: "outs = o1 @ o2"
    by (auto split: sum.splits prod.splits)
  from Cons.prems(2) have ne: "e \<noteq> Connect i" and rest: "Connect i \<notin> set es"
    by auto
  from step_absent [OF assms Cons.prems(1) ne s]
  have c1: "i \<notin> set c1" and d1: "deliveries i o1 = []" by simp_all
  from Cons.IH [OF c1 rest r] d1 o show ?case
    by (simp add: deliveries_append)
qed

section \<open>No envelope outlives its handler call\<close>

lemma run_append:
  "run srv cs (es1 @ es2) =
     (case run srv cs es1 of
        Inl err \<Rightarrow> Inl err
      | Inr (c1, o1) \<Rightarrow>
          (case run srv c1 es2 of
             Inl err \<Rightarrow> Inl err
           | Inr (c2, o2) \<Rightarrow> Inr (c2, o1 @ o2)))"
  by (induction es1 arbitrary: cs) (auto split: sum.splits prod.splits)

lemma scaffold_packet_effects:
  "\<exists>outs. step scaffold_server (Packet a ''message'' arg) cs = Inr (cs, outs) \<and>
     (\<forall>r. deliveries r outs =
        (if a \<in> set cs then replicate (length (filter (\<lambda>x. x = r \<and> x \<noteq> a) cs)) (''message'', arg) else []))"
proof (cases "a \<in> set cs")
  case True
  obtain label where "step scaffold_server (Packet a ''message'' arg) cs =
      Inr (cs, LogMessage label # broadcast_emit cs a ''message'' arg)"
    using scaffold_packet [OF True] by blast
  with True show ?thesis by (simp add: deliveries_broadcast)
next
  case False
  then show ?thesis by (simp add: scaffold_server_def)
qed








section \<open>Envelopes for a client that is not connected\<close>

lemma run_packets:
  "\<exists>outs. run scaffold_server cs (map (\<lambda>e. Packet a ''message'' e) envelopes) = Inr (cs, outs)"
proof (induction envelopes)
  case Nil
  show ?case by simp
next
  case (Cons e envelopes)
  obtain o1 where "step scaffold_server (Packet a ''message'' e) cs = Inr (cs, o1)"
    using scaffold_packet_effects [of a e cs] by blast
  moreover obtain o2 where
    "run scaffold_server cs (map (\<lambda>e. Packet a ''message'' e) envelopes) = Inr (cs, o2)"
    using Cons.IH by blast
  ultimately show ?case by simp
qed

text \<open>
  C8, as the code has it. The scaffolded server has no pending queue. However
  many envelopes are sent while a client is not connected, they leave the state
  of the server as it was, no packet goes to that client, and when the client
  then connects the server does nothing but log the connection: none of the
  envelopes was held for it.
\<close>

theorem C8_offline_envelopes_not_kept:
  assumes "b \<notin> set cs"
  shows "\<exists>outs.
           run scaffold_server cs (map (\<lambda>e. Packet a ''message'' e) envelopes) = Inr (cs, outs) \<and>
           deliveries b outs = [] \<and>
           run scaffold_server cs (map (\<lambda>e. Packet a ''message'' e) envelopes @ [Connect b]) =
             Inr (cs @ [b], outs @ [LogConnected b])"
proof -
  obtain outs where
    r: "run scaffold_server cs (map (\<lambda>e. Packet a ''message'' e) envelopes) = Inr (cs, outs)"
    using run_packets by blast
  have "Connect b \<notin> set (map (\<lambda>e. Packet a ''message'' e) envelopes)"
    by auto
  from run_absent [OF _ assms this r] have d: "deliveries b outs = []"
    by simp
  have "run scaffold_server cs (map (\<lambda>e. Packet a ''message'' e) envelopes @ [Connect b]) =
      Inr (cs @ [b], outs @ [LogConnected b])"
    using r assms by (simp add: run_append add_socket_def on_connection_def)
  with r d show ?thesis by blast
qed

theorem C8_offline_envelopes_not_kept_witness:
  "''B'' \<notin> set [''A''] \<and>
   run scaffold_server [''A'']
     (map (\<lambda>e. Packet ''A'' ''message'' e) [JStr ''e1'', JStr ''e2''] @ [Connect ''B'']) =
     Inr ([''A''] @ [''B''],
       [LogMessage (JStr ''unknown''), LogMessage (JStr ''unknown'')] @ [LogConnected ''B''])"
proof -
  have b: "''B'' \<notin> set [''A'']" by simp
  have r: "run scaffold_server [''A''] (map (\<lambda>e. Packet ''A'' ''message'' e) [JStr ''e1'', JStr ''e2'']) =
      Inr ([''A''], [LogMessage (JStr ''unknown''), LogMessage (JStr ''unknown'')])"
    by (simp add: scaffold_server_def on_message_def log_label_def broadcast_emit_def)
  from C8_offline_envelopes_not_kept [OF b, of "''A''" "[JStr ''e1'', JStr ''e2'']"] r b
  show ?thesis by auto
qed

text \<open>
  C8 as stated fails on the code. With room for one pending envelope, two
  envelopes sent to the absent client B would leave the second one held for B. The server holds neither: after the
  two, its state is the connection table it had, and B, connecting, is sent
  nothing.
\<close>

theorem C8_pending_queue_counterexample:
  "run scaffold_server [''A'']
     [Packet ''A'' ''message'' (JStr ''e1''), Packet ''A'' ''message'' (JStr ''e2'')] =
     Inr ([''A''], [LogMessage (JStr ''unknown''), LogMessage (JStr ''unknown'')]) \<and>
   run scaffold_server [''A'']
     [Packet ''A'' ''message'' (JStr ''e1''), Packet ''A'' ''message'' (JStr ''e2''), Connect ''B''] =
     Inr ([''A'', ''B''],
       [LogMessage (JStr ''unknown''), LogMessage (JStr ''unknown''), LogConnected ''B'']) \<and>
   \<not> (\<exists>cs outs.
        run scaffold_server [''A'']
          [Packet ''A'' ''message'' (JStr ''e1''), Packet ''A'' ''message'' (JStr ''e2''), Connect ''B''] =
          Inr (cs, outs) \<and>
        (''message'', JStr ''e2'') \<in> set (deliveries ''B'' outs))"
  by (simp add: scaffold_server_def on_message_def log_label_def broadcast_emit_def
      add_socket_def on_connection_def)

section \<open>Destroying a session\<close>

lemma destroy_twice: "destroy s (destroy s reg) = destroy s reg"
  by (simp add: destroy_def option.map_comp comp_def)

text \<open>
  C9. In the registry the specification describes, destroying a session
  removes it, so that looking it up afterwards gives \<open>NotFound\<close>; it takes
  the session out of every room; it leaves every other session as it was; and
  destroying it a second time changes nothing. Destroying has no error path at
  all: it returns the registry.
\<close>

theorem C9_destroy_then_lookup_not_found:
  "lookup (destroy s reg) s = Inl NotFound \<and>
   (\<forall>r rm. rooms (destroy s reg) r = Some rm \<longrightarrow> s \<notin> members rm) \<and>
   (\<forall>t. t \<noteq> s \<longrightarrow> lookup (destroy s reg) t = lookup reg t) \<and>
   destroy s (destroy s reg) = destroy s reg"
proof -
  have gone: "lookup (destroy s reg) s = Inl NotFound"
    by (simp add: lookup_def destroy_def)
  have left: "\<forall>r rm. rooms (destroy s reg) r = Some rm \<longrightarrow> s \<notin> members rm"
    by (auto simp: destroy_def)
  have others: "\<forall>t. t \<noteq> s \<longrightarrow> lookup (destroy s reg) t = lookup reg t"
    by (simp add: lookup_def destroy_def)
  from gone left others destroy_twice [of s reg] show ?thesis
    by blast
qed

theorem C9_destroy_then_lookup_not_found_witness:
  "(let reg =
      \<lparr>sessions =
         [''S'' \<mapsto> \<lparr>created_at = 0, last_activity = 5, session_ttl = 60, room_ids = {''R''}\<rparr>,
          ''T'' \<mapsto> \<lparr>created_at = 1, last_activity = 1, session_ttl = 60, room_ids = {''R''}\<rparr>],
       rooms =
         [''R'' \<mapsto> \<lparr>room_created_at = 2, room_ttl = 60, members = {''S'', ''T''}, max_members = None\<rparr>]\<rparr>
    in lookup (destroy ''S'' reg) ''S'' = Inl NotFound \<and>
       rooms (destroy ''S'' reg) ''R'' =
         Some \<lparr>room_created_at = 2, room_ttl = 60, members = {''T''}, max_members = None\<rparr> \<and>
       lookup (destroy ''S'' reg) ''T'' =
         Inr \<lparr>created_at = 1, last_activity = 1, session_ttl = 60, room_ids = {''R''}\<rparr> \<and>
       destroy ''S'' (destroy ''S'' reg) = destroy ''S'' reg)"
proof -
  let ?reg =
    "\<lparr>sessions =
       [''S'' \<mapsto> \<lparr>created_at = 0, last_activity = 5, session_ttl = 60, room_ids = {''R''}\<rparr>,
        ''T'' \<mapsto> \<lparr>created_at = 1, last_activity = 1, session_ttl = 60, room_ids = {''R''}\<rparr>],
     rooms =
       [''R'' \<mapsto> \<lparr>room_created_at = 2, room_ttl = 60, members = {''S'', ''T''}, max_members = None\<rparr>]\<rparr>"
  note c9 = C9_destroy_then_lookup_not_found [of "''S''" ?reg]
  from c9 have gone: "lookup (destroy ''S'' ?reg) ''S'' = Inl NotFound"
    by (rule conjunct1)
  from c9 have twice: "destroy ''S'' (destroy ''S'' ?reg) = destroy ''S'' ?reg"
    by (elim conjE)
  have room: "rooms (destroy ''S'' ?reg) ''R'' =
      Some \<lparr>room_created_at = 2, room_ttl = 60, members = {''T''}, max_members = None\<rparr>"
    by (simp add: destroy_def)
  have other: "lookup (destroy ''S'' ?reg) ''T'' =
      Inr \<lparr>created_at = 1, last_activity = 1, session_ttl = 60, room_ids = {''R''}\<rparr>"
    by (simp add: lookup_def destroy_def)
  show ?thesis
    unfolding Let_def by (intro conjI) (fact gone, fact room, fact other, fact twice)
qed

end
